theory Spec2Isabelle
  imports Main "HOL-Library.Sublist"
begin

section \<open>Python values used by \<^verbatim>\<open>scripts/generate_synthetic_data.py\<close>\<close>

text \<open>
  A Python \<^verbatim>\<open>str\<close> is a sequence of code points. Every string of the script lies in
  Latin-1 (the only code points above ASCII are U+00E7, U+00E8 and U+00E9), so a string
  is modelled as a \<^typ>\<open>string\<close> whose characters are the code points U+0000 to U+00FF:
  \<^term>\<open>CHR 0xE9\<close> is the one code point U+00E9, not a byte of an encoding.

  The exceptions the modelled operations can raise are values of \<open>error\<close>; a
  computation that can raise returns \<open>error + 'a\<close>, with \<open>Inl\<close> for the exception.
\<close>

datatype error = KeyError | IndexError

subsection \<open>\<^verbatim>\<open>str.lower\<close>, \<^verbatim>\<open>str.replace\<close>, \<^verbatim>\<open>str.title\<close>\<close>

text \<open>
  Lower-casing on Latin-1: the upper-case letters are A to Z (65 to 90) and U+00C0 to
  U+00DE except the multiplication sign U+00D7; each has its lower-case form 32 places
  later. Every other code point below 256 is left as it is.
\<close>

definition lower_char :: "char \<Rightarrow> char" where
  "lower_char c =
     (let n = (of_char c :: nat) in
      if (65 \<le> n \<and> n \<le> 90) \<or> (192 \<le> n \<and> n \<le> 222 \<and> n \<noteq> 215)
      then char_of (n + 32) else c)"

definition lower :: "string \<Rightarrow> string" where
  "lower s = map lower_char s"

text \<open>
  \<^verbatim>\<open>s.replace(old, new)\<close>: the occurrences of \<open>old\<close> are found from the left and do not
  overlap; with an empty \<open>old\<close>, \<open>new\<close> is put before every character and at the end.
\<close>

function replace :: "string \<Rightarrow> string \<Rightarrow> string \<Rightarrow> string" where
  "replace [] old new = (if old = [] then new else [])"
| "replace (c # s) old new =
     (if old = [] then new @ c # replace s old new
      else if prefix old (c # s) then new @ replace (drop (length old) (c # s)) old new
      else c # replace s old new)"
  by pat_completeness auto
termination
  by (relation "measure (\<lambda>(s, old, new). length s)") auto

text \<open>
  \<^verbatim>\<open>str.title\<close> walks the string once: a character that follows a cased character is
  lower-cased, any other character is title-cased. On Latin-1 the cased characters are
  the letters together with U+00AA, U+00B5 and U+00BA, and the title-case form of a
  lower-case letter lies 32 places earlier. Three letters have a title-case form outside
  Latin-1 (U+00B5, U+00DF, U+00FF); this model leaves them unchanged, and no string the
  script applies \<^verbatim>\<open>title\<close> to contains them (lemma \<open>REGIONS_DB_slugs_plain\<close>).
\<close>

definition is_cased :: "char \<Rightarrow> bool" where
  "is_cased c =
     (let n = (of_char c :: nat) in
      (65 \<le> n \<and> n \<le> 90) \<or> (97 \<le> n \<and> n \<le> 122) \<or> n = 170 \<or> n = 181 \<or> n = 186 \<or>
      (192 \<le> n \<and> n \<noteq> 215 \<and> n \<noteq> 247))"

definition title_char :: "char \<Rightarrow> char" where
  "title_char c =
     (let n = (of_char c :: nat) in
      if (97 \<le> n \<and> n \<le> 122) \<or> (224 \<le> n \<and> n \<le> 254 \<and> n \<noteq> 247)
      then char_of (n - 32) else c)"

fun title_from :: "bool \<Rightarrow> string \<Rightarrow> string" where
  "title_from previous_is_cased [] = []"
| "title_from previous_is_cased (c # s) =
     (if previous_is_cased then lower_char c else title_char c) # title_from (is_cased c) s"

definition title :: "string \<Rightarrow> string" where
  "title s = title_from False s"

subsection \<open>Indexing, dictionaries and the random source\<close>

text \<open>\<^verbatim>\<open>xs[i]\<close> for an index that is not negative: out of range raises \<^verbatim>\<open>IndexError\<close>.\<close>

definition list_getitem :: "'a list \<Rightarrow> nat \<Rightarrow> error + 'a" where
  "list_getitem xs i = (if i < length xs then Inr (xs ! i) else Inl IndexError)"

text \<open>
  A dictionary literal is the list of its items in the order written; \<^verbatim>\<open>k in d\<close> and
  \<^verbatim>\<open>d[k]\<close> look the key up, and \<^verbatim>\<open>d[k]\<close> raises \<^verbatim>\<open>KeyError\<close> for a missing key.
\<close>

definition dict_contains :: "('k \<times> 'v) list \<Rightarrow> 'k \<Rightarrow> bool" where
  "dict_contains d k = (map_of d k \<noteq> None)"

definition dict_getitem :: "('k \<times> 'v) list \<Rightarrow> 'k \<Rightarrow> error + 'v" where
  "dict_getitem d k = (case map_of d k of None \<Rightarrow> Inl KeyError | Some v \<Rightarrow> Inr v)"

text \<open>
  The process-global random source is not seeded, so every value it hands out is an
  input of the model: a draw is an integer, and each operation reduces it to its range,
  so that every value of the range can be drawn and no other.
  \<^item> \<^verbatim>\<open>random.choice(seq)\<close> raises \<^verbatim>\<open>IndexError\<close> on an empty sequence and returns
    the element at a drawn index otherwise.
  \<^item> \<^verbatim>\<open>random.randint(a, b)\<close> returns an integer from \<open>a\<close> to \<open>b\<close>, both included.
  \<^item> \<^verbatim>\<open>random.random()\<close> returns \<open>k / 2^53\<close> for some \<open>k < 2^53\<close>, and the float
    literal \<^verbatim>\<open>0.7\<close> is exactly \<open>6305039478318694 / 2^53\<close>; the test
    \<^verbatim>\<open>random.random() < 0.7\<close> is therefore a comparison of numerators.
\<close>

definition choice :: "'a list \<Rightarrow> int \<Rightarrow> error + 'a" where
  "choice seq n = (if seq = [] then Inl IndexError else Inr (seq ! nat (n mod int (length seq))))"

definition randint :: "int \<Rightarrow> int \<Rightarrow> int \<Rightarrow> int" where
  "randint a b n = a + n mod (b - a + 1)"

definition random_below_07 :: "int \<Rightarrow> bool" where
  "random_below_07 n = (n mod 2 ^ 53 < 6305039478318694)"

section \<open>Configuration, constants and seed data\<close>

record country =
  c_id :: string
  c_name :: string
  c_population :: int
  c_need_level :: string

record region =
  r_id :: string
  r_country_id :: string
  r_name :: string
  r_population :: int
  r_need_level :: string

record org =
  o_id :: string
  o_name :: string

record edge =
  org_id :: string
  region_id :: string
  aid_type :: string
  project_count :: int

definition NUM_ORGS :: nat where
  "NUM_ORGS = 15"

definition TOTAL_PROJECTS :: nat where
  "TOTAL_PROJECTS = 180"

definition NEED_LEVELS :: "string list" where
  "NEED_LEVELS = [''low'', ''medium'', ''high'']"

definition AID_TYPES :: "string list" where
  "AID_TYPES = [''food'', ''medical'', ''infrastructure'']"

definition COUNTRIES :: "country list" where
  "COUNTRIES =
    [\<lparr>c_id = ''syria'', c_name = ''Syria'', c_population = 21500000, c_need_level = ''high''\<rparr>,
     \<lparr>c_id = ''yemen'', c_name = ''Yemen'', c_population = 33000000, c_need_level = ''high''\<rparr>,
     \<lparr>c_id = ''sudan'', c_name = ''Sudan'', c_population = 45000000, c_need_level = ''high''\<rparr>,
     \<lparr>c_id = ''afghanistan'', c_name = ''Afghanistan'', c_population = 40000000,
        c_need_level = ''high''\<rparr>,
     \<lparr>c_id = ''somalia'', c_name = ''Somalia'', c_population = 17000000, c_need_level = ''high''\<rparr>,
     \<lparr>c_id = ''palestine'', c_name = ''Palestine'', c_population = 5000000,
        c_need_level = ''high''\<rparr>,
     \<lparr>c_id = ''myanmar'', c_name = ''Myanmar'', c_population = 54000000,
        c_need_level = ''medium''\<rparr>,
     \<lparr>c_id = ''ethiopia'', c_name = ''Ethiopia'', c_population = 120000000,
        c_need_level = ''medium''\<rparr>]"

type_synonym region_row = "string \<times> int \<times> string"

definition REGIONS_DB :: "(string \<times> region_row list) list" where
  "REGIONS_DB =
    [(''syria'',
        [(''aleppo'', 4500000, ''high''), (''idlib'', 3000000, ''high''),
         (''damascus'', 2500000, ''medium''), (''homs'', 1500000, ''medium''),
         (''raqqa'', 900000, ''high'')]),
     (''yemen'',
        [(''sanaa'', 4000000, ''high''), (''aden'', 1200000, ''medium''),
         (''taiz'', 2800000, ''high''), (''hodeidah'', 2000000, ''high''),
         (''marib'', 1000000, ''high'')]),
     (''sudan'',
        [(''khartoum'', 6000000, ''high''), (''darfur'', 9000000, ''high''),
         (''kordofan'', 4000000, ''high''), (''blue-nile'', 1200000, ''medium'')]),
     (''afghanistan'',
        [(''kabul'', 4500000, ''high''), (''herat'', 2000000, ''medium''),
         (''kandahar'', 1500000, ''high''), (''mazar'', 1000000, ''medium'')]),
     (''somalia'',
        [(''mogadishu'', 2500000, ''high''), (''baidoa'', 800000, ''high''),
         (''hargeisa'', 1200000, ''low''), (''kismayo'', 500000, ''high'')]),
     (''palestine'',
        [(''gaza'', 2300000, ''high''), (''west-bank-north'', 1500000, ''medium''),
         (''west-bank-south'', 1200000, ''medium'')]),
     (''myanmar'',
        [(''rakhine'', 3000000, ''high''), (''yangon'', 7000000, ''low''),
         (''mandalay'', 1500000, ''low'')]),
     (''ethiopia'',
        [(''tigray'', 6000000, ''high''), (''amhara'', 20000000, ''medium''),
         (''oromia'', 35000000, ''medium''), (''somali-region'', 5000000, ''high'')])]"

definition NGO_NAMES :: "string list" where
  "NGO_NAMES =
    [''World Food Programme'',
     ''M'' @ [CHR 0xE9] @ ''decins Sans Fronti'' @ [CHR 0xE8] @ ''res'',
     ''ICRC'', ''UN Refugee Agency'',
     ''UNICEF'', ''Oxfam'', ''International Rescue Committee'', ''World Health Organization'',
     ''Save the Children'', ''Islamic Relief'', ''CARE International'', ''Mercy Corps'',
     ''Norwegian Refugee Council'', ''Action Against Hunger'', ''Direct Relief'']"

section \<open>\<^verbatim>\<open>generate_orgs\<close>\<close>

text \<open>
  The identifier of line 69: \<^verbatim>\<open>.lower().replace(" ", "-").replace(U+00E9, "e").replace(U+00E7, "c")\<close>.
\<close>

definition org_id_of :: "string \<Rightarrow> string" where
  "org_id_of name =
     replace (replace (replace (lower name) '' '' ''-'') [CHR 0xE9] ''e'') [CHR 0xE7] ''c''"

text \<open>The loop over \<^verbatim>\<open>range(len(NGO_NAMES))\<close>, reading \<^verbatim>\<open>NGO_NAMES[i]\<close> and appending.\<close>

fun generate_orgs_loop :: "string list \<Rightarrow> nat list \<Rightarrow> org list \<Rightarrow> error + org list" where
  "generate_orgs_loop names [] orgs = Inr orgs"
| "generate_orgs_loop names (i # rest) orgs =
     (case list_getitem names i of
        Inl e \<Rightarrow> Inl e
      | Inr name \<Rightarrow>
          generate_orgs_loop names rest (orgs @ [\<lparr>o_id = org_id_of name, o_name = name\<rparr>]))"

definition generate_orgs :: "error + org list" where
  "generate_orgs = generate_orgs_loop NGO_NAMES [0..<length NGO_NAMES] []"

section \<open>\<^verbatim>\<open>generate_regions\<close>\<close>

definition region_of_row :: "string \<Rightarrow> region_row \<Rightarrow> region" where
  "region_of_row cid row =
     (case row of (r_name', r_pop, r_need) \<Rightarrow>
        \<lparr>r_id = cid @ ''-'' @ r_name',
         r_country_id = cid,
         r_name = replace (title r_name') ''-'' '' '',
         r_population = r_pop,
         r_need_level = r_need\<rparr>)"

text \<open>The inner loop over the rows of one country, appending one record per row.\<close>

fun append_rows :: "string \<Rightarrow> region_row list \<Rightarrow> region list \<Rightarrow> region list" where
  "append_rows cid [] regions = regions"
| "append_rows cid (row # rest) regions = append_rows cid rest (regions @ [region_of_row cid row])"

fun generate_regions_loop :: "country list \<Rightarrow> region list \<Rightarrow> error + region list" where
  "generate_regions_loop [] regions = Inr regions"
| "generate_regions_loop (country # rest) regions =
     (let cid = c_id country in
      if dict_contains REGIONS_DB cid then
        (case dict_getitem REGIONS_DB cid of
           Inl e \<Rightarrow> Inl e
         | Inr rows \<Rightarrow> generate_regions_loop rest (append_rows cid rows regions))
      else generate_regions_loop rest regions)"

definition generate_regions :: "country list \<Rightarrow> error + region list" where
  "generate_regions countries = generate_regions_loop countries []"

section \<open>\<^verbatim>\<open>generate_edges\<close>\<close>

text \<open>The five values one iteration draws, in the order the loop body draws them.\<close>

record draw =
  d_org :: int
  d_random :: int
  d_region :: int
  d_aid_type :: int
  d_count :: int

text \<open>
  \<^verbatim>\<open>next((e for e in edges if ...), None)\<close>: the first edge with the triple, as its
  position in the list (the script holds a reference to that element and updates it in
  place).
\<close>

fun find_existing :: "edge list \<Rightarrow> string \<Rightarrow> string \<Rightarrow> string \<Rightarrow> nat option" where
  "find_existing [] oid rid a = None"
| "find_existing (e # es) oid rid a =
     (if org_id e = oid \<and> region_id e = rid \<and> aid_type e = a then Some 0
      else map_option Suc (find_existing es oid rid a))"

text \<open>
  Lines 96 to 106 of the loop body: the organisation, the target region (from the
  high-need regions when \<^verbatim>\<open>random.random() < 0.7\<close>, from all regions otherwise), the
  aid type and the project count of one iteration.
\<close>

definition draw_project ::
  "org list \<Rightarrow> region list \<Rightarrow> region list \<Rightarrow> draw \<Rightarrow> error + (org \<times> region \<times> string \<times> int)" where
  "draw_project orgs regions high_need_regions d =
     (case choice orgs (d_org d) of
        Inl e \<Rightarrow> Inl e
      | Inr org \<Rightarrow>
         (case (if random_below_07 (d_random d) then choice high_need_regions (d_region d)
                else choice regions (d_region d)) of
            Inl e \<Rightarrow> Inl e
          | Inr target_region \<Rightarrow>
             (case choice AID_TYPES (d_aid_type d) of
                Inl e \<Rightarrow> Inl e
              | Inr aid \<Rightarrow> Inr (org, target_region, aid, randint 1 15 (d_count d)))))"

text \<open>
  Lines 108 to 119: the count is added to the existing edge of the triple, or a new edge
  is appended. (An edge is a dictionary of four keys, so \<^verbatim>\<open>if existing\<close> holds exactly
  when one was found.)
\<close>

definition record_project :: "edge list \<Rightarrow> string \<Rightarrow> string \<Rightarrow> string \<Rightarrow> int \<Rightarrow> edge list" where
  "record_project edges oid rid aid count =
     (case find_existing edges oid rid aid of
        Some i \<Rightarrow> edges[i := (edges ! i)\<lparr>project_count := project_count (edges ! i) + count\<rparr>]
      | None \<Rightarrow>
          edges @ [\<lparr>org_id = oid, region_id = rid, aid_type = aid, project_count = count\<rparr>])"

definition generate_edges_step ::
  "org list \<Rightarrow> region list \<Rightarrow> region list \<Rightarrow> draw \<Rightarrow> edge list \<Rightarrow> error + edge list" where
  "generate_edges_step orgs regions high_need_regions d edges =
     (case draw_project orgs regions high_need_regions d of
        Inl e \<Rightarrow> Inl e
      | Inr (org, target_region, aid, count) \<Rightarrow>
          Inr (record_project edges (o_id org) (r_id target_region) aid count))"

fun generate_edges_loop ::
  "org list \<Rightarrow> region list \<Rightarrow> region list \<Rightarrow> draw list \<Rightarrow> edge list \<Rightarrow> error + edge list" where
  "generate_edges_loop orgs regions high_need_regions [] edges = Inr edges"
| "generate_edges_loop orgs regions high_need_regions (d # ds) edges =
     (case generate_edges_step orgs regions high_need_regions d edges of
        Inl e \<Rightarrow> Inl e
      | Inr edges' \<Rightarrow> generate_edges_loop orgs regions high_need_regions ds edges')"

text \<open>\<open>draws i\<close> holds the values drawn in iteration \<open>i\<close> of \<^verbatim>\<open>range(TOTAL_PROJECTS)\<close>.\<close>

definition generate_edges :: "org list \<Rightarrow> region list \<Rightarrow> (nat \<Rightarrow> draw) \<Rightarrow> error + edge list" where
  "generate_edges orgs regions draws =
     (let high_need_regions = filter (\<lambda>r. r_need_level r = ''high'') regions in
      generate_edges_loop orgs regions high_need_regions (map draws [0..<TOTAL_PROJECTS]) [])"

section \<open>\<^verbatim>\<open>main\<close>: the four lists handed to the writer\<close>

definition main ::
  "(nat \<Rightarrow> draw) \<Rightarrow> error + (country list \<times> org list \<times> region list \<times> edge list)" where
  "main draws =
     (let countries = COUNTRIES in
      case generate_orgs of
        Inl e \<Rightarrow> Inl e
      | Inr orgs \<Rightarrow>
         (case generate_regions countries of
            Inl e \<Rightarrow> Inl e
          | Inr regions \<Rightarrow>
             (case generate_edges orgs regions draws of
                Inl e \<Rightarrow> Inl e
              | Inr edges \<Rightarrow> Inr (countries, orgs, regions, edges))))"

section \<open>Notions the stated properties use\<close>

text \<open>The triple that identifies an edge.\<close>

definition edge_key :: "edge \<Rightarrow> string \<times> string \<times> string" where
  "edge_key e = (org_id e, region_id e, aid_type e)"

text \<open>The regions one country contributes: none when its id is not a key of the table.\<close>

definition regions_for :: "country \<Rightarrow> region list" where
  "regions_for country =
     (case map_of REGIONS_DB (c_id country) of
        None \<Rightarrow> []
      | Some rows \<Rightarrow> map (region_of_row (c_id country)) rows)"

text \<open>A small input on which the statements below are evaluated.\<close>

definition demo_orgs :: "org list" where
  "demo_orgs = [\<lparr>o_id = ''icrc'', o_name = ''ICRC''\<rparr>, \<lparr>o_id = ''oxfam'', o_name = ''Oxfam''\<rparr>]"

definition demo_regions :: "region list" where
  "demo_regions =
     [\<lparr>r_id = ''myanmar-yangon'', r_country_id = ''myanmar'', r_name = ''Yangon'',
        r_population = 7000000, r_need_level = ''low''\<rparr>,
      \<lparr>r_id = ''palestine-gaza'', r_country_id = ''palestine'', r_name = ''Gaza'',
        r_population = 2300000, r_need_level = ''high''\<rparr>]"

definition demo_draws :: "nat \<Rightarrow> draw" where
  "demo_draws i = \<lparr>d_org = int i, d_random = 0, d_region = 0, d_aid_type = 0, d_count = 2\<rparr>"

definition demo_edges :: "edge list" where
  "demo_edges =
     [\<lparr>org_id = ''icrc'', region_id = ''palestine-gaza'', aid_type = ''food'', project_count = 270\<rparr>,
      \<lparr>org_id = ''oxfam'', region_id = ''palestine-gaza'', aid_type = ''food'', project_count = 270\<rparr>]"

text \<open>
  The lists \<^verbatim>\<open>main\<close> passes to \<^verbatim>\<open>generate_edges\<close>: what \<^verbatim>\<open>generate_orgs\<close> and
  \<^verbatim>\<open>generate_regions(COUNTRIES)\<close> return (lemmas \<open>seeded_orgs_run\<close>, \<open>seeded_regions_run\<close>).
\<close>

definition seeded_orgs :: "org list" where
  "seeded_orgs = map (\<lambda>name. \<lparr>o_id = org_id_of name, o_name = name\<rparr>) NGO_NAMES"

definition seeded_regions :: "region list" where
  "seeded_regions = concat (map regions_for COUNTRIES)"

text \<open>Two draw sequences that differ only in the aid type drawn.\<close>

definition draws_food :: "nat \<Rightarrow> draw" where
  "draws_food i = \<lparr>d_org = 0, d_random = 0, d_region = 0, d_aid_type = 0, d_count = 0\<rparr>"

definition draws_medical :: "nat \<Rightarrow> draw" where
  "draws_medical i = \<lparr>d_org = 0, d_random = 0, d_region = 0, d_aid_type = 1, d_count = 0\<rparr>"

text \<open>
  The identifier as the specification words it: the name lower-cased, its spaces replaced
  by hyphens, and the two accented characters U+00E9 and U+00E7 removed, each giving way
  to its base letter.
\<close>

definition strip_accent :: "char \<Rightarrow> char" where
  "strip_accent c = (if c = CHR 0xE9 then CHR ''e'' else if c = CHR 0xE7 then CHR ''c'' else c)"

definition org_id_spec :: "string \<Rightarrow> string" where
  "org_id_spec name =
     map strip_accent (map (\<lambda>c. if c = CHR '' '' then CHR ''-'' else c) (map lower_char name))"

text \<open>
  Whitespace (what \<^verbatim>\<open>str.isspace\<close> accepts) and the letters that carry a diacritic, on
  Latin-1.
\<close>

definition is_whitespace :: "char \<Rightarrow> bool" where
  "is_whitespace c =
     (let n = (of_char c :: nat) in
      (9 \<le> n \<and> n \<le> 13) \<or> (28 \<le> n \<and> n \<le> 32) \<or> n = 133 \<or> n = 160)"

definition is_accented :: "char \<Rightarrow> bool" where
  "is_accented c =
     (let n = (of_char c :: nat) in
      (192 \<le> n \<and> n \<le> 197) \<or> (199 \<le> n \<and> n \<le> 207) \<or> (209 \<le> n \<and> n \<le> 214) \<or>
      (217 \<le> n \<and> n \<le> 221) \<or> (224 \<le> n \<and> n \<le> 229) \<or> (231 \<le> n \<and> n \<le> 239) \<or>
      (241 \<le> n \<and> n \<le> 246) \<or> (249 \<le> n \<and> n \<le> 253) \<or> n = 255)"

text \<open>
  The display name as the specification words it: the hyphens of the slug replaced by
  spaces, and each word capitalized (first letter upper-case, the others lower-case).
\<close>

fun split_on :: "char \<Rightarrow> string \<Rightarrow> string list" where
  "split_on sep [] = [[]]"
| "split_on sep (c # s) =
     (if c = sep then [] # split_on sep s
      else (case split_on sep s of w # ws \<Rightarrow> (c # w) # ws | [] \<Rightarrow> [[c]]))"

fun join :: "char \<Rightarrow> string list \<Rightarrow> string" where
  "join sep [] = []"
| "join sep [w] = w"
| "join sep (w # ws) = w @ sep # join sep ws"

definition capitalize :: "string \<Rightarrow> string" where
  "capitalize w = (case w of [] \<Rightarrow> [] | c # cs \<Rightarrow> title_char c # map lower_char cs)"

definition display_name_spec :: "string \<Rightarrow> string" where
  "display_name_spec slug =
     join CHR '' '' (map capitalize
       (split_on CHR '' '' (map (\<lambda>c. if c = CHR ''-'' then CHR '' '' else c) slug)))"

text \<open>The record the specification describes for one table row of a country.\<close>

definition region_spec :: "string \<Rightarrow> region_row \<Rightarrow> region" where
  "region_spec cid row =
     (case row of (slug, pop, need) \<Rightarrow>
        \<lparr>r_id = cid @ ''-'' @ slug, r_country_id = cid, r_name = display_name_spec slug,
         r_population = pop, r_need_level = need\<rparr>)"

definition regions_for_spec :: "country \<Rightarrow> region list" where
  "regions_for_spec country =
     (case map_of REGIONS_DB (c_id country) of
        None \<Rightarrow> []
      | Some rows \<Rightarrow> map (region_spec (c_id country)) rows)"

text \<open>The number of table rows of a country: none when its id is not a key.\<close>

definition row_count :: "country \<Rightarrow> nat" where
  "row_count country =
     (case map_of REGIONS_DB (c_id country) of None \<Rightarrow> 0 | Some rows \<Rightarrow> length rows)"

text \<open>A country whose id is not a key of \<open>REGIONS_DB\<close>.\<close>

definition atlantis :: country where
  "atlantis = \<lparr>c_id = ''atlantis'', c_name = ''Atlantis'', c_population = 0,
                c_need_level = ''low''\<rparr>"


section \<open>Strings, indexing and random choices\<close>

lemma replace_single:
  "replace s [a] [b] = map (\<lambda>c. if c = a then b else c) s"
  by (induction s) auto

lemma list_getitem_in_range: "i < length xs \<Longrightarrow> list_getitem xs i = Inr (xs ! i)"
  by (simp add: list_getitem_def)

lemma generate_orgs_loop_map:
  "\<forall>i \<in> set is. i < length names \<Longrightarrow>
   generate_orgs_loop names is orgs =
     Inr (orgs @ map (\<lambda>i. \<lparr>o_id = org_id_of (names ! i), o_name = names ! i\<rparr>) is)"
  by (induction "is" arbitrary: orgs) (simp_all add: list_getitem_in_range)

lemma generate_orgs_map:
  "generate_orgs = Inr (map (\<lambda>name. \<lparr>o_id = org_id_of name, o_name = name\<rparr>) NGO_NAMES)"
proof -
  have "generate_orgs =
      Inr (map (\<lambda>i. \<lparr>o_id = org_id_of (NGO_NAMES ! i), o_name = NGO_NAMES ! i\<rparr>)
             [0..<length NGO_NAMES])"
    unfolding generate_orgs_def by (subst generate_orgs_loop_map) simp_all
  also have "map (\<lambda>i. \<lparr>o_id = org_id_of (NGO_NAMES ! i), o_name = NGO_NAMES ! i\<rparr>)
             [0..<length NGO_NAMES]
      = map (\<lambda>name. \<lparr>o_id = org_id_of name, o_name = name\<rparr>) (map ((!) NGO_NAMES) [0..<length NGO_NAMES])"
    by (simp add: comp_def)
  finally show ?thesis by (simp only: map_nth)
qed

lemma append_rows_map: "append_rows cid rows regions = regions @ map (region_of_row cid) rows"
  by (induction rows arbitrary: regions) simp_all

lemma generate_regions_loop_concat:
  "generate_regions_loop countries regions = Inr (regions @ concat (map regions_for countries))"
  by (induction countries arbitrary: regions)
     (auto simp: dict_contains_def dict_getitem_def regions_for_def append_rows_map Let_def)

lemma generate_regions_concat:
  "generate_regions countries = Inr (concat (map regions_for countries))"
  by (simp add: generate_regions_def generate_regions_loop_concat)

lemma choice_index: "xs \<noteq> [] \<Longrightarrow> nat (n mod int (length xs)) < length xs"
proof -
  assume "xs \<noteq> []"
  then have "0 < int (length xs)" by simp
  then have "0 \<le> n mod int (length xs)" "n mod int (length xs) < int (length xs)"
    by (rule pos_mod_sign, rule pos_mod_bound)
  then show ?thesis by linarith
qed

lemma choice_member: "choice xs n = Inr x \<Longrightarrow> x \<in> set xs"
  by (auto simp: choice_def choice_index split: if_splits)

lemma choice_nonempty: "xs \<noteq> [] \<Longrightarrow> choice xs n = Inr (xs ! nat (n mod int (length xs)))"
  by (simp add: choice_def)

lemma choice_error: "choice xs n = Inl e \<Longrightarrow> e = IndexError \<and> xs = []"
  by (auto simp: choice_def split: if_splits)

lemma randint_1_15: "1 \<le> randint 1 15 n \<and> randint 1 15 n \<le> 15"
  by (simp add: randint_def)

lemma find_existing_Some:
  "find_existing edges oid rid a = Some i \<Longrightarrow>
   i < length edges \<and> edge_key (edges ! i) = (oid, rid, a)"
proof (induction edges arbitrary: i)
  case Nil
  then show ?case by simp
next
  case (Cons e es)
  then show ?case
    by (cases "org_id e = oid \<and> region_id e = rid \<and> aid_type e = a")
       (auto simp: edge_key_def)
qed

lemma find_existing_None:
  "find_existing edges oid rid a = None \<longleftrightarrow> (oid, rid, a) \<notin> set (map edge_key edges)"
  by (induction edges) (auto simp: edge_key_def)

lemma draw_project_values:
  assumes "draw_project orgs regions high d = Inr (org, target, aid, count)"
  shows "org \<in> set orgs" and "target \<in> set regions \<or> target \<in> set high"
    and "aid \<in> set AID_TYPES" and "1 \<le> count" and "count \<le> 15"
  using assms randint_1_15 [of "d_count d"]
  by (auto simp: draw_project_def split: sum.splits if_splits dest: choice_member)

lemma draw_project_total:
  assumes "orgs \<noteq> []" and "regions \<noteq> []" and "high \<noteq> []"
  shows "\<exists>v. draw_project orgs regions high d = Inr v"
  using assms by (simp add: draw_project_def choice_nonempty AID_TYPES_def)

lemma draw_project_error:
  assumes "draw_project orgs regions high d = Inl e"
  shows "e = IndexError \<and> (orgs = [] \<or> regions = [] \<or> high = [])"
  using assms
  by (auto simp: draw_project_def AID_TYPES_def split: sum.splits if_splits dest: choice_error)

lemma record_project_cases:
  "(\<exists>i < length edges. edge_key (edges ! i) = (oid, rid, a) \<and>
      record_project edges oid rid a count =
        edges[i := (edges ! i)\<lparr>project_count := project_count (edges ! i) + count\<rparr>]) \<or>
   ((oid, rid, a) \<notin> set (map edge_key edges) \<and>
      record_project edges oid rid a count =
        edges @ [\<lparr>org_id = oid, region_id = rid, aid_type = a, project_count = count\<rparr>])"
proof (cases "find_existing edges oid rid a")
  case None
  then have "(oid, rid, a) \<notin> set (map edge_key edges)"
    using find_existing_None [of edges oid rid a] by simp
  with None show ?thesis by (simp add: record_project_def)
next
  case (Some i)
  with find_existing_Some [OF Some] show ?thesis by (auto simp: record_project_def)
qed

lemma map_edge_key_update:
  "i < length edges \<Longrightarrow>
   map edge_key (edges[i := (edges ! i)\<lparr>project_count := n\<rparr>]) = map edge_key edges"
  by (simp add: map_update edge_key_def list_update_same_conv)

lemma record_project_distinct:
  "distinct (map edge_key edges) \<Longrightarrow> distinct (map edge_key (record_project edges oid rid a count))"
  using record_project_cases [of edges oid rid a count]
  by (auto simp: map_edge_key_update edge_key_def)

lemma record_project_counts:
  assumes "\<forall>e \<in> set edges. 1 \<le> project_count e" and "1 \<le> count"
  shows "\<forall>e \<in> set (record_project edges oid rid a count). 1 \<le> project_count e"
proof -
  from record_project_cases [of edges oid rid a count] show ?thesis
  proof (elim disjE exE conjE)
    fix i
    assume i: "i < length edges"
      and r: "record_project edges oid rid a count =
        edges[i := (edges ! i)\<lparr>project_count := project_count (edges ! i) + count\<rparr>]"
    from i assms have "1 \<le> project_count (edges ! i) + count" by (simp add: add_increasing2)
    with assms(1) r show ?thesis
      by (auto dest!: set_update_subset_insert [THEN subsetD])
  next
    assume "record_project edges oid rid a count =
        edges @ [\<lparr>org_id = oid, region_id = rid, aid_type = a, project_count = count\<rparr>]"
    with assms show ?thesis by auto
  qed
qed

lemma record_project_length:
  "length edges \<le> length (record_project edges oid rid a count) \<and>
   length (record_project edges oid rid a count) \<le> Suc (length edges) \<and>
   record_project edges oid rid a count \<noteq> []"
proof -
  from record_project_cases [of edges oid rid a count] show ?thesis
  proof (elim disjE exE conjE)
    fix i
    assume i: "i < length edges"
      and r: "record_project edges oid rid a count =
        edges[i := (edges ! i)\<lparr>project_count := project_count (edges ! i) + count\<rparr>]"
    from i have "edges \<noteq> []" by auto
    with r show ?thesis by simp
  next
    assume "record_project edges oid rid a count =
        edges @ [\<lparr>org_id = oid, region_id = rid, aid_type = a, project_count = count\<rparr>]"
    then show ?thesis by simp
  qed
qed

lemma record_project_refs:
  assumes "\<forall>e \<in> set edges. org_id e \<in> OS \<and> region_id e \<in> RS \<and> aid_type e \<in> AS"
    and "oid \<in> OS" and "rid \<in> RS" and "a \<in> AS"
  shows "\<forall>e \<in> set (record_project edges oid rid a count).
           org_id e \<in> OS \<and> region_id e \<in> RS \<and> aid_type e \<in> AS"
proof -
  from record_project_cases [of edges oid rid a count] show ?thesis
  proof (elim disjE exE conjE)
    fix i
    assume i: "i < length edges"
      and r: "record_project edges oid rid a count =
        edges[i := (edges ! i)\<lparr>project_count := project_count (edges ! i) + count\<rparr>]"
    from i assms(1) have "org_id (edges ! i) \<in> OS \<and> region_id (edges ! i) \<in> RS \<and> aid_type (edges ! i) \<in> AS"
      by simp
    with assms(1) r show ?thesis
      by (auto dest!: set_update_subset_insert [THEN subsetD])
  next
    assume "record_project edges oid rid a count =
        edges @ [\<lparr>org_id = oid, region_id = rid, aid_type = a, project_count = count\<rparr>]"
    with assms show ?thesis by auto
  qed
qed

section \<open>The loop of \<^verbatim>\<open>generate_edges\<close>\<close>

lemma generate_edges_step_Inr:
  assumes "generate_edges_step orgs regions high d edges = Inr edges'"
  obtains org target aid count where
    "draw_project orgs regions high d = Inr (org, target, aid, count)"
    "edges' = record_project edges (o_id org) (r_id target) aid count"
  using assms by (auto simp: generate_edges_step_def split: sum.splits)

lemma generate_edges_loop_invariant:
  assumes step: "\<And>d es es'. P es \<Longrightarrow>
      generate_edges_step orgs regions high d es = Inr es' \<Longrightarrow> P es'"
  shows "P edges \<Longrightarrow> generate_edges_loop orgs regions high ds edges = Inr res \<Longrightarrow> P res"
proof (induction ds arbitrary: edges)
  case Nil
  then show ?case by simp
next
  case (Cons d ds)
  from Cons.prems(2) obtain edges' where
    s: "generate_edges_step orgs regions high d edges = Inr edges'" and
    l: "generate_edges_loop orgs regions high ds edges' = Inr res"
    by (auto split: sum.splits)
  from step [OF Cons.prems(1) s] have "P edges'" .
  from Cons.IH [OF this l] show ?case .
qed

lemma generate_edges_loop_length:
  "generate_edges_loop orgs regions high ds edges = Inr res \<Longrightarrow>
   length edges \<le> length res \<and> length res \<le> length edges + length ds \<and>
   (ds \<noteq> [] \<longrightarrow> res \<noteq> [])"
proof (induction ds arbitrary: edges)
  case Nil
  then show ?case by simp
next
  case (Cons d ds)
  from Cons.prems obtain edges' where
    s: "generate_edges_step orgs regions high d edges = Inr edges'" and
    l: "generate_edges_loop orgs regions high ds edges' = Inr res"
    by (auto split: sum.splits)
  from s obtain org target aid count where
    "draw_project orgs regions high d = Inr (org, target, aid, count)" and
    e: "edges' = record_project edges (o_id org) (r_id target) aid count"
    by (rule generate_edges_step_Inr)
  from record_project_length [of edges "o_id org" "r_id target" aid count] e
  have "length edges \<le> length edges'" "length edges' \<le> Suc (length edges)" "edges' \<noteq> []"
    by simp_all
  moreover from Cons.IH [OF l]
  have "length edges' \<le> length res" "length res \<le> length edges' + length ds" by simp_all
  ultimately show ?case by auto
qed

lemma generate_edges_loop_total:
  assumes "orgs \<noteq> []" and "regions \<noteq> []" and "high \<noteq> []"
  shows "\<exists>res. generate_edges_loop orgs regions high ds edges = Inr res"
proof (induction ds arbitrary: edges)
  case Nil
  show ?case by simp
next
  case (Cons d ds)
  from draw_project_total [OF assms] obtain v where "draw_project orgs regions high d = Inr v" ..
  then obtain edges' where "generate_edges_step orgs regions high d edges = Inr edges'"
    by (cases v) (auto simp: generate_edges_step_def)
  with Cons.IH [of edges'] show ?case by simp
qed

lemma generate_edges_loop_error:
  "generate_edges_loop orgs regions high ds edges = Inl e \<Longrightarrow>
   e = IndexError \<and> (orgs = [] \<or> regions = [] \<or> high = [])"
proof (induction ds arbitrary: edges)
  case Nil
  then show ?case by simp
next
  case (Cons d ds)
  show ?case
  proof (cases "generate_edges_step orgs regions high d edges")
    case (Inl e')
    with Cons.prems have "e' = e" by simp
    with Inl have "draw_project orgs regions high d = Inl e"
      by (auto simp: generate_edges_step_def split: sum.splits)
    then show ?thesis by (rule draw_project_error)
  next
    case (Inr edges')
    with Cons.prems have "generate_edges_loop orgs regions high ds edges' = Inl e" by simp
    then show ?thesis by (rule Cons.IH)
  qed
qed

lemma step_distinct:
  "distinct (map edge_key es) \<Longrightarrow> generate_edges_step orgs regions high d es = Inr es' \<Longrightarrow>
   distinct (map edge_key es')"
  by (erule generate_edges_step_Inr) (simp add: record_project_distinct)

lemma step_counts:
  assumes "\<forall>e \<in> set es. 1 \<le> project_count e"
    and "generate_edges_step orgs regions high d es = Inr es'"
  shows "\<forall>e \<in> set es'. 1 \<le> project_count e"
proof -
  from assms(2) obtain org target aid count where
    d: "draw_project orgs regions high d = Inr (org, target, aid, count)" and
    e: "es' = record_project es (o_id org) (r_id target) aid count"
    by (rule generate_edges_step_Inr)
  from draw_project_values(4) [OF d] have "1 \<le> count" .
  from record_project_counts [OF assms(1) this] e show ?thesis by simp
qed

lemma step_refs:
  assumes "\<forall>e \<in> set es. org_id e \<in> o_id ` set orgs \<and> region_id e \<in> r_id ` set regions \<and>
             aid_type e \<in> set AID_TYPES"
    and "set high \<subseteq> set regions"
    and "generate_edges_step orgs regions high d es = Inr es'"
  shows "\<forall>e \<in> set es'. org_id e \<in> o_id ` set orgs \<and> region_id e \<in> r_id ` set regions \<and>
             aid_type e \<in> set AID_TYPES"
proof -
  from assms(3) obtain org target aid count where
    d: "draw_project orgs regions high d = Inr (org, target, aid, count)" and
    e: "es' = record_project es (o_id org) (r_id target) aid count"
    by (rule generate_edges_step_Inr)
  from draw_project_values(1-3) [OF d] assms(2)
  have "o_id org \<in> o_id ` set orgs" "r_id target \<in> r_id ` set regions" "aid \<in> set AID_TYPES"
    by auto
  from record_project_refs [OF assms(1) this] e show ?thesis by simp
qed

section \<open>Uniqueness of the triples\<close>

text \<open>The run of the 180 iterations on the small input.\<close>

lemma demo_run: "generate_edges demo_orgs demo_regions demo_draws = Inr demo_edges"
  by code_simp

text \<open>
  Claim C1. When \<^verbatim>\<open>generate_edges\<close> returns, no two edges of the returned list have
  the same \<open>(org_id, region_id, aid_type)\<close> triple. And when the triple of a draw is
  already the triple of an edge of the list, recording the draw adds the count to the
  \<open>project_count\<close> of that edge and leaves the list as long as it was: nothing is
  appended.
\<close>

theorem generate_edges_unique_triples:
  "(\<forall>edges. generate_edges orgs regions draws = Inr edges \<longrightarrow> distinct (map edge_key edges)) \<and>
   (\<forall>edges oid rid aid count. (oid, rid, aid) \<in> set (map edge_key edges) \<longrightarrow>
      (\<exists>i < length edges. edge_key (edges ! i) = (oid, rid, aid) \<and>
         record_project edges oid rid aid count =
           edges[i := (edges ! i)\<lparr>project_count := project_count (edges ! i) + count\<rparr>]))"
proof (intro conjI allI impI)
  fix edges
  assume "generate_edges orgs regions draws = Inr edges"
  then have "generate_edges_loop orgs regions (filter (\<lambda>r. r_need_level r = ''high'') regions)
      (map draws [0..<TOTAL_PROJECTS]) [] = Inr edges"
    by (simp add: generate_edges_def)
  then show "distinct (map edge_key edges)"
    by (rule generate_edges_loop_invariant [where P = "\<lambda>es. distinct (map edge_key es)", rotated 2])
       (simp_all add: step_distinct)
next
  fix edges oid rid aid count
  assume "(oid, rid, aid) \<in> set (map edge_key edges)"
  with record_project_cases [of edges oid rid aid count]
  show "\<exists>i < length edges. edge_key (edges ! i) = (oid, rid, aid) \<and>
         record_project edges oid rid aid count =
           edges[i := (edges ! i)\<lparr>project_count := project_count (edges ! i) + count\<rparr>]"
    by blast
qed

text \<open>
  On the small input: two organisations drawn in turn give two edges, and a further draw
  of the second triple with count 5 changes only that edge's count.
\<close>

theorem generate_edges_unique_triples_witness:
  "generate_edges demo_orgs demo_regions demo_draws = Inr demo_edges \<and>
   distinct (map edge_key demo_edges) \<and>
   length (record_project demo_edges ''oxfam'' ''palestine-gaza'' ''food'' 5) = 2 \<and>
   map project_count (record_project demo_edges ''oxfam'' ''palestine-gaza'' ''food'' 5) = [270, 275]"
proof -
  note t = generate_edges_unique_triples [of demo_orgs demo_regions demo_draws]
  from t demo_run have "distinct (map edge_key demo_edges)" by blast
  moreover have "(''oxfam'', ''palestine-gaza'', ''food'') \<in> set (map edge_key demo_edges)"
    by (simp add: demo_edges_def edge_key_def)
  with t obtain i where "i < length demo_edges"
    "edge_key (demo_edges ! i) = (''oxfam'', ''palestine-gaza'', ''food'')"
    "record_project demo_edges ''oxfam'' ''palestine-gaza'' ''food'' 5 =
       demo_edges[i := (demo_edges ! i)\<lparr>project_count := project_count (demo_edges ! i) + 5\<rparr>]"
    by blast
  then have "length (record_project demo_edges ''oxfam'' ''palestine-gaza'' ''food'' 5) = 2 \<and>
    map project_count (record_project demo_edges ''oxfam'' ''palestine-gaza'' ''food'' 5) = [270, 275]"
    by (cases i) (auto simp: demo_edges_def edge_key_def)
  ultimately show ?thesis using demo_run by simp
qed

lemma generate_edges_loop_unfold:
  "generate_edges orgs regions draws =
     generate_edges_loop orgs regions (filter (\<lambda>r. r_need_level r = ''high'') regions)
       (map draws [0..<TOTAL_PROJECTS]) []"
  by (simp add: generate_edges_def)

section \<open>Counts and length of the edge list\<close>

text \<open>
  Claim C5. For organisation and region lists that are not empty and every sequence of
  draws: the list \<^verbatim>\<open>generate_edges\<close> returns has \<open>project_count \<ge> 1\<close> in every edge,
  at least one edge and at most \<open>TOTAL_PROJECTS\<close> (180) edges. The one way the call
  returns no list is the \<^verbatim>\<open>IndexError\<close> of \<^verbatim>\<open>random.choice\<close> on an empty high-need
  subset, which needs a region list without a high-need region.
\<close>

theorem generate_edges_counts_and_length:
  assumes "orgs \<noteq> []" and "regions \<noteq> []"
  shows "case generate_edges orgs regions draws of
           Inr edges \<Rightarrow>
             (\<forall>e \<in> set edges. 1 \<le> project_count e) \<and>
             1 \<le> length edges \<and> length edges \<le> TOTAL_PROJECTS
         | Inl err \<Rightarrow>
             err = IndexError \<and> filter (\<lambda>r. r_need_level r = ''high'') regions = []"
proof (cases "generate_edges orgs regions draws")
  case (Inl err)
  then have "err = IndexError \<and>
      (orgs = [] \<or> regions = [] \<or> filter (\<lambda>r. r_need_level r = ''high'') regions = [])"
    unfolding generate_edges_loop_unfold by (rule generate_edges_loop_error)
  with assms Inl show ?thesis by simp
next
  case (Inr edges)
  then have run: "generate_edges_loop orgs regions (filter (\<lambda>r. r_need_level r = ''high'') regions)
      (map draws [0..<TOTAL_PROJECTS]) [] = Inr edges"
    by (simp only: generate_edges_loop_unfold)
  have "\<forall>e \<in> set ([] :: edge list). 1 \<le> project_count e" by simp
  with step_counts have counts: "\<forall>e \<in> set edges. 1 \<le> project_count e"
    using run by (rule generate_edges_loop_invariant)
  from generate_edges_loop_length [OF run]
  have "edges \<noteq> []" "length edges \<le> TOTAL_PROJECTS"
    by (simp_all add: TOTAL_PROJECTS_def)
  then have "1 \<le> length edges" by (cases edges) simp_all
  with counts \<open>length edges \<le> TOTAL_PROJECTS\<close> Inr show ?thesis by simp
qed

text \<open>On the small input: two edges, each with count 270.\<close>

theorem generate_edges_counts_and_length_witness:
  "demo_orgs \<noteq> [] \<and> demo_regions \<noteq> [] \<and>
   generate_edges demo_orgs demo_regions demo_draws = Inr demo_edges \<and>
   list_all (\<lambda>e. 1 \<le> project_count e) demo_edges \<and>
   1 \<le> length demo_edges \<and> length demo_edges \<le> TOTAL_PROJECTS"
proof -
  have ne: "demo_orgs \<noteq> []" "demo_regions \<noteq> []"
    by (simp_all add: demo_orgs_def demo_regions_def)
  from generate_edges_counts_and_length [OF ne, of demo_draws] ne
  show ?thesis by (simp add: demo_run list_all_iff)
qed

section \<open>Referential integrity of the edges\<close>

text \<open>
  Claim C10. Whatever is drawn, every edge \<^verbatim>\<open>generate_edges\<close> returns names an
  organisation of the input list in \<open>org_id\<close>, a region of the input list in
  \<open>region_id\<close>, and one of "food", "medical", "infrastructure" in \<open>aid_type\<close>.
\<close>

theorem generate_edges_referential_integrity:
  assumes "generate_edges orgs regions draws = Inr edges"
  shows "\<forall>e \<in> set edges.
           org_id e \<in> o_id ` set orgs \<and> region_id e \<in> r_id ` set regions \<and>
           aid_type e \<in> {''food'', ''medical'', ''infrastructure''}"
proof -
  let ?high = "filter (\<lambda>r. r_need_level r = ''high'') regions"
  have sub: "set ?high \<subseteq> set regions" by simp
  from assms have run: "generate_edges_loop orgs regions ?high
      (map draws [0..<TOTAL_PROJECTS]) [] = Inr edges"
    by (simp only: generate_edges_loop_unfold)
  have "\<forall>e \<in> set edges. org_id e \<in> o_id ` set orgs \<and> region_id e \<in> r_id ` set regions \<and>
          aid_type e \<in> set AID_TYPES"
    by (rule generate_edges_loop_invariant [OF _ _ run, where
          P = "\<lambda>es. \<forall>e \<in> set es. org_id e \<in> o_id ` set orgs \<and>
                 region_id e \<in> r_id ` set regions \<and> aid_type e \<in> set AID_TYPES"])
       (erule step_refs [OF _ sub], simp_all)
  then show ?thesis by (simp add: AID_TYPES_def)
qed

text \<open>On the small input.\<close>

theorem generate_edges_referential_integrity_witness:
  "generate_edges demo_orgs demo_regions demo_draws = Inr demo_edges \<and>
   set (map org_id demo_edges) \<subseteq> set (map o_id demo_orgs) \<and>
   set (map region_id demo_edges) \<subseteq> set (map r_id demo_regions) \<and>
   set (map aid_type demo_edges) \<subseteq> {''food'', ''medical'', ''infrastructure''}"
  using generate_edges_referential_integrity [OF demo_run] demo_run by auto

section \<open>The seeded run\<close>

lemma seeded_orgs_run: "generate_orgs = Inr seeded_orgs"
  by (simp add: generate_orgs_map seeded_orgs_def)

lemma seeded_regions_run: "generate_regions COUNTRIES = Inr seeded_regions"
  by (simp add: generate_regions_concat seeded_regions_def)

lemma seeded_orgs_nonempty: "seeded_orgs \<noteq> []"
  by (simp add: seeded_orgs_def NGO_NAMES_def)

lemma seeded_high_need: "filter (\<lambda>r. r_need_level r = ''high'') seeded_regions \<noteq> []"
  by code_simp

lemma seeded_regions_nonempty: "seeded_regions \<noteq> []"
  using seeded_high_need by auto

lemma generate_edges_total:
  assumes "orgs \<noteq> []" and "filter (\<lambda>r. r_need_level r = ''high'') regions \<noteq> []"
  shows "\<exists>edges. generate_edges orgs regions draws = Inr edges"
proof -
  from assms(2) have "regions \<noteq> []" by auto
  with assms show ?thesis
    unfolding generate_edges_loop_unfold by (intro generate_edges_loop_total)
qed

lemma record_project_hd:
  assumes "edges \<noteq> []"
  shows "record_project edges oid rid a count \<noteq> [] \<and>
         edge_key (hd (record_project edges oid rid a count)) = edge_key (hd edges)"
proof -
  from record_project_cases [of edges oid rid a count] show ?thesis
  proof (elim disjE exE conjE)
    fix i
    assume "i < length edges"
      and "record_project edges oid rid a count =
        edges[i := (edges ! i)\<lparr>project_count := project_count (edges ! i) + count\<rparr>]"
    with assms show ?thesis
      by (cases edges; cases i) (simp_all add: edge_key_def)
  next
    assume "record_project edges oid rid a count =
        edges @ [\<lparr>org_id = oid, region_id = rid, aid_type = a, project_count = count\<rparr>]"
    with assms show ?thesis by simp
  qed
qed

lemma step_hd:
  assumes "es \<noteq> [] \<and> edge_key (hd es) = k"
    and "generate_edges_step orgs regions high d es = Inr es'"
  shows "es' \<noteq> [] \<and> edge_key (hd es') = k"
proof -
  from assms(2) obtain org target aid count where
    "draw_project orgs regions high d = Inr (org, target, aid, count)" and
    e: "es' = record_project es (o_id org) (r_id target) aid count"
    by (rule generate_edges_step_Inr)
  from assms(1) have "es \<noteq> []" ..
  from record_project_hd [OF this, of "o_id org" "r_id target" aid count] e assms(1)
  show ?thesis by simp
qed

lemma generate_edges_first_edge:
  assumes d: "draw_project orgs regions (filter (\<lambda>r. r_need_level r = ''high'') regions)
                (draws 0) = Inr (org, target, aid, count)"
    and run: "generate_edges orgs regions draws = Inr edges"
  shows "edges \<noteq> [] \<and> edge_key (hd edges) = (o_id org, r_id target, aid)"
proof -
  let ?high = "filter (\<lambda>r. r_need_level r = ''high'') regions"
  let ?first = "[\<lparr>org_id = o_id org, region_id = r_id target, aid_type = aid,
                   project_count = count\<rparr>]"
  have "[0..<TOTAL_PROJECTS] = 0 # [1..<TOTAL_PROJECTS]"
    by (simp add: TOTAL_PROJECTS_def upt_conv_Cons)
  with run d have rest: "generate_edges_loop orgs regions ?high
      (map draws [1..<TOTAL_PROJECTS]) ?first = Inr edges"
    by (simp add: generate_edges_loop_unfold generate_edges_step_def record_project_def)
  show ?thesis
    by (rule generate_edges_loop_invariant [OF _ _ rest, where
          P = "\<lambda>es. es \<noteq> [] \<and> edge_key (hd es) = (o_id org, r_id target, aid)"])
       (erule step_hd, simp_all add: edge_key_def)
qed

lemma draw_project_first:
  assumes "orgs \<noteq> []" and "high \<noteq> []"
  shows "draw_project orgs regions high
           \<lparr>d_org = 0, d_random = 0, d_region = 0, d_aid_type = 0, d_count = 0\<rparr> =
           Inr (hd orgs, hd high, ''food'', 1)"
    and "draw_project orgs regions high
           \<lparr>d_org = 0, d_random = 0, d_region = 0, d_aid_type = 1, d_count = 0\<rparr> =
           Inr (hd orgs, hd high, ''medical'', 1)"
  using assms
  by (simp_all add: draw_project_def choice_def random_below_07_def randint_def AID_TYPES_def
        hd_conv_nth)

text \<open>
  Claim C9. With the seeded tables the high-need subset \<^verbatim>\<open>generate_edges\<close> computes is
  not empty, and \<^verbatim>\<open>generate_edges\<close> returns a list for every sequence of draws: no
  \<^verbatim>\<open>random.choice\<close> is ever made from an empty list.
\<close>

theorem seeded_generate_edges_never_fails:
  "\<exists>orgs regions.
     generate_orgs = Inr orgs \<and> generate_regions COUNTRIES = Inr regions \<and>
     filter (\<lambda>r. r_need_level r = ''high'') regions \<noteq> [] \<and>
     (\<forall>draws. \<exists>edges. generate_edges orgs regions draws = Inr edges)"
proof -
  have "\<forall>draws. \<exists>edges. generate_edges seeded_orgs seeded_regions draws = Inr edges"
    by (intro allI generate_edges_total seeded_orgs_nonempty seeded_high_need)
  with seeded_orgs_run seeded_regions_run seeded_high_need show ?thesis by blast
qed

lemma main_seeded:
  "generate_edges seeded_orgs seeded_regions draws = Inr edges \<Longrightarrow>
   main draws = Inr (COUNTRIES, seeded_orgs, seeded_regions, edges)"
  by (simp add: main_def seeded_orgs_run seeded_regions_run)

text \<open>
  Claim C8. The countries, organisations and regions \<^verbatim>\<open>main\<close> builds are the same in
  every run, whatever the random source hands out: \<^verbatim>\<open>generate_orgs\<close> and
  \<^verbatim>\<open>generate_regions\<close> draw nothing. The edges are not: there are two draw sequences
  for which \<^verbatim>\<open>generate_edges\<close> returns different lists.
\<close>

theorem main_deterministic_except_edges:
  "\<exists>orgs regions.
     generate_orgs = Inr orgs \<and> generate_regions COUNTRIES = Inr regions \<and>
     (\<forall>draws. \<exists>edges. main draws = Inr (COUNTRIES, orgs, regions, edges)) \<and>
     (\<exists>draws draws' edges edges'.
        generate_edges orgs regions draws = Inr edges \<and>
        generate_edges orgs regions draws' = Inr edges' \<and> edges \<noteq> edges')"
proof -
  let ?high = "filter (\<lambda>r. r_need_level r = ''high'') seeded_regions"
  note total = generate_edges_total [OF seeded_orgs_nonempty seeded_high_need]
  have all: "\<forall>draws. \<exists>edges. main draws = Inr (COUNTRIES, seeded_orgs, seeded_regions, edges)"
  proof
    fix draws
    from total [of draws] obtain edges where
      "generate_edges seeded_orgs seeded_regions draws = Inr edges" ..
    then have "main draws = Inr (COUNTRIES, seeded_orgs, seeded_regions, edges)"
      by (rule main_seeded)
    then show "\<exists>edges. main draws = Inr (COUNTRIES, seeded_orgs, seeded_regions, edges)" ..
  qed
  from total [of draws_food] obtain food where
    f: "generate_edges seeded_orgs seeded_regions draws_food = Inr food" ..
  from total [of draws_medical] obtain medical where
    m: "generate_edges seeded_orgs seeded_regions draws_medical = Inr medical" ..
  have "draw_project seeded_orgs seeded_regions ?high (draws_food 0) =
      Inr (hd seeded_orgs, hd ?high, ''food'', 1)"
    unfolding draws_food_def
    by (rule draw_project_first(1) [OF seeded_orgs_nonempty seeded_high_need])
  from generate_edges_first_edge [OF this f]
  have kf: "aid_type (hd food) = ''food''" by (simp add: edge_key_def)
  have "draw_project seeded_orgs seeded_regions ?high (draws_medical 0) =
      Inr (hd seeded_orgs, hd ?high, ''medical'', 1)"
    unfolding draws_medical_def
    by (rule draw_project_first(2) [OF seeded_orgs_nonempty seeded_high_need])
  from generate_edges_first_edge [OF this m]
  have km: "aid_type (hd medical) = ''medical''" by (simp add: edge_key_def)
  from kf km have "food \<noteq> medical" by auto
  with f m have "\<exists>draws draws' edges edges'.
        generate_edges seeded_orgs seeded_regions draws = Inr edges \<and>
        generate_edges seeded_orgs seeded_regions draws' = Inr edges' \<and> edges \<noteq> edges'"
    by blast
  with all seeded_orgs_run seeded_regions_run show ?thesis by blast
qed

section \<open>The organisations\<close>

lemma org_id_of_spec: "org_id_of name = org_id_spec name"
  by (simp add: org_id_of_def org_id_spec_def lower_def replace_single strip_accent_def comp_def)

lemma strip_accent_plain: "strip_accent c \<noteq> CHR 0xE9 \<and> strip_accent c \<noteq> CHR 0xE7"
  by (simp add: strip_accent_def)

text \<open>
  Claim C3. \<^verbatim>\<open>generate_orgs\<close> returns one record per name of \<open>NGO_NAMES\<close>, in the order
  of \<open>NGO_NAMES\<close>; the id of each is its name lower-cased, with spaces replaced by
  hyphens and the two accented characters U+00E9 and U+00E7 removed (replaced by "e" and
  "c"): no id contains a space or either of the two characters.
\<close>

theorem generate_orgs_ids:
  "generate_orgs = Inr (map (\<lambda>name. \<lparr>o_id = org_id_spec name, o_name = name\<rparr>) NGO_NAMES) \<and>
   (\<forall>name. CHR '' '' \<notin> set (org_id_spec name) \<and> CHR 0xE9 \<notin> set (org_id_spec name) \<and>
            CHR 0xE7 \<notin> set (org_id_spec name))"
proof
  show "generate_orgs = Inr (map (\<lambda>name. \<lparr>o_id = org_id_spec name, o_name = name\<rparr>) NGO_NAMES)"
    by (simp add: generate_orgs_map org_id_of_spec)
next
  show "\<forall>name. CHR '' '' \<notin> set (org_id_spec name) \<and> CHR 0xE9 \<notin> set (org_id_spec name) \<and>
            CHR 0xE7 \<notin> set (org_id_spec name)"
    by (auto simp: org_id_spec_def strip_accent_def split: if_splits)
qed

text \<open>The names and ids of the returned list, and one id computed.\<close>

theorem generate_orgs_ids_witness:
  "generate_orgs = Inr seeded_orgs \<and> map o_name seeded_orgs = NGO_NAMES \<and>
   map o_id seeded_orgs = map org_id_spec NGO_NAMES \<and>
   org_id_spec ''Save the Children'' = ''save-the-children''"
proof -
  from generate_orgs_ids
  have "generate_orgs = Inr (map (\<lambda>name. \<lparr>o_id = org_id_spec name, o_name = name\<rparr>) NGO_NAMES)"
    by (rule conjunct1)
  then have "Inr seeded_orgs =
      (Inr (map (\<lambda>name. \<lparr>o_id = org_id_spec name, o_name = name\<rparr>) NGO_NAMES) :: error + org list)"
    by (simp only: seeded_orgs_run)
  then have e: "seeded_orgs = map (\<lambda>name. \<lparr>o_id = org_id_spec name, o_name = name\<rparr>) NGO_NAMES"
    by (simp only: sum.inject)
  have "map o_name seeded_orgs = NGO_NAMES"
    and "map o_id seeded_orgs = map org_id_spec NGO_NAMES"
    unfolding e by (simp_all add: comp_def)
  moreover have "org_id_spec ''Save the Children'' = ''save-the-children''"
    by code_simp
  ultimately show ?thesis using seeded_orgs_run by simp
qed

lemma seeded_orgs_length: "length seeded_orgs = NUM_ORGS"
  by (simp add: seeded_orgs_def NGO_NAMES_def NUM_ORGS_def)

lemma seeded_orgs_ids:
  "map o_id seeded_orgs =
     [''world-food-programme'', ''medecins-sans-fronti'' @ [CHR 0xE8] @ ''res'', ''icrc'',
      ''un-refugee-agency'', ''unicef'', ''oxfam'', ''international-rescue-committee'',
      ''world-health-organization'', ''save-the-children'', ''islamic-relief'',
      ''care-international'', ''mercy-corps'', ''norwegian-refugee-council'',
      ''action-against-hunger'', ''direct-relief'']"
  by code_simp

lemma seeded_orgs_distinct: "distinct (map o_id seeded_orgs)"
  unfolding seeded_orgs_ids by code_simp

lemma seeded_orgs_no_whitespace:
  "list_all (\<lambda>ident. list_all (\<lambda>c. \<not> is_whitespace c) ident) (map o_id seeded_orgs)"
  unfolding seeded_orgs_ids by code_simp

lemma e_grave_accented: "is_accented (CHR 0xE8)"
  by code_simp

text \<open>
  Claim C4. The returned list has 15 organisations, their ids are pairwise distinct and
  none contains whitespace. The second name of \<open>NGO_NAMES\<close> has U+00E9 (e with acute)
  and U+00E8 (e with grave); its id still contains the accented character U+00E8, since
  line 69 replaces U+00E9 and U+00E7 only.
\<close>

theorem generate_orgs_keeps_e_grave:
  "\<exists>orgs. generate_orgs = Inr orgs \<and> length orgs = NUM_ORGS \<and> distinct (map o_id orgs) \<and>
     list_all (\<lambda>ident. list_all (\<lambda>c. \<not> is_whitespace c) ident) (map o_id orgs) \<and>
     o_name (orgs ! 1) = ''M'' @ [CHR 0xE9] @ ''decins Sans Fronti'' @ [CHR 0xE8] @ ''res'' \<and>
     o_id (orgs ! 1) = ''medecins-sans-fronti'' @ [CHR 0xE8] @ ''res'' \<and>
     CHR 0xE8 \<in> set (o_id (orgs ! 1)) \<and> is_accented (CHR 0xE8)"
proof -
  have "o_id (seeded_orgs ! 1) = map o_id seeded_orgs ! 1"
    by (simp add: seeded_orgs_length NUM_ORGS_def)
  then have i: "o_id (seeded_orgs ! 1) = ''medecins-sans-fronti'' @ [CHR 0xE8] @ ''res''"
    by (simp add: seeded_orgs_ids)
  have n: "o_name (seeded_orgs ! 1) = ''M'' @ [CHR 0xE9] @ ''decins Sans Fronti'' @ [CHR 0xE8] @ ''res''"
    by (simp add: seeded_orgs_def NGO_NAMES_def)
  from i have m: "CHR 0xE8 \<in> set (o_id (seeded_orgs ! 1))" by simp
  from seeded_orgs_run seeded_orgs_length seeded_orgs_distinct seeded_orgs_no_whitespace i n m
    e_grave_accented
  show ?thesis by blast
qed

section \<open>The regions\<close>

text \<open>Every slug of the table is made of the letters a to z and hyphens.\<close>

lemma REGIONS_DB_slugs_plain:
  "list_all (\<lambda>(cid, rows). list_all (\<lambda>(slug, pop, need).
      list_all (\<lambda>c. c \<in> set ''abcdefghijklmnopqrstuvwxyz-'') slug) rows) REGIONS_DB"
  by code_simp

lemma REGIONS_DB_display_names:
  "list_all (\<lambda>(cid, rows). list_all (\<lambda>(slug, pop, need).
      replace (title slug) ''-'' '' '' = display_name_spec slug) rows) REGIONS_DB"
  by code_simp

lemma region_of_row_spec:
  assumes "map_of REGIONS_DB cid = Some rows" and "row \<in> set rows"
  shows "region_of_row cid' row = region_spec cid' row"
proof -
  from assms(1) have "(cid, rows) \<in> set REGIONS_DB" by (rule map_of_SomeD)
  with REGIONS_DB_display_names assms(2) show ?thesis
    by (cases row) (auto simp: list_all_iff region_of_row_def region_spec_def)
qed

lemma regions_for_spec_eq: "regions_for = regions_for_spec"
  by (rule ext)
     (auto simp: regions_for_def regions_for_spec_def region_of_row_spec split: option.splits)

text \<open>
  Claim C6. For any country list, \<^verbatim>\<open>generate_regions\<close> raises nothing and returns, country
  by country in the order of the list, one record per row of the country's table entry:
  its id is the country id, a hyphen and the slug, its name is the slug with hyphens
  replaced by spaces and each word capitalized. A country whose id is not a key of
  \<open>REGIONS_DB\<close> contributes no record.
\<close>

theorem generate_regions_per_country:
  "generate_regions countries = Inr (concat (map regions_for_spec countries))"
  by (simp add: generate_regions_concat regions_for_spec_eq)

lemma regions_for_country_id: "r \<in> set (regions_for country) \<Longrightarrow> r_country_id r = c_id country"
  by (auto simp: regions_for_def region_of_row_def split: option.splits)

lemma regions_for_length: "length (regions_for country) = row_count country"
  by (simp add: regions_for_def row_count_def split: option.splits)

text \<open>
  Claim C7. \<^verbatim>\<open>generate_regions\<close> returns a list in which every \<open>country_id\<close> is the id of
  a country of the input list, and whose length is the sum, over the countries of the
  input list, of the row counts of those present in \<open>REGIONS_DB\<close>.
\<close>

theorem generate_regions_country_ids_and_count:
  "\<exists>regions. generate_regions countries = Inr regions \<and>
     (\<forall>r \<in> set regions. r_country_id r \<in> c_id ` set countries) \<and>
     length regions = sum_list (map row_count countries)"
proof (intro exI conjI)
  show "generate_regions countries = Inr (concat (map regions_for countries))"
    by (rule generate_regions_concat)
  show "\<forall>r \<in> set (concat (map regions_for countries)). r_country_id r \<in> c_id ` set countries"
    by (auto dest: regions_for_country_id)
  show "length (concat (map regions_for countries)) = sum_list (map row_count countries)"
    by (simp add: length_concat comp_def regions_for_length)
qed

lemma seeded_row_counts: "map row_count COUNTRIES = [5, 5, 4, 4, 4, 3, 3, 4]"
  by code_simp

lemma REGIONS_DB_row_counts: "map (length \<circ> snd) REGIONS_DB = [5, 5, 4, 4, 4, 3, 3, 4]"
  by code_simp

lemma seeded_regions_length: "length seeded_regions = 32"
  by (simp add: seeded_regions_def length_concat comp_def regions_for_length seeded_row_counts)

text \<open>On the seeded countries: all eight are keys of the table, and 32 regions result.\<close>

theorem generate_regions_country_ids_and_count_witness:
  "\<exists>regions. generate_regions COUNTRIES = Inr regions \<and>
     set (map r_country_id regions) \<subseteq> set (map c_id COUNTRIES) \<and>
     list_all (\<lambda>c. dict_contains REGIONS_DB (c_id c)) COUNTRIES \<and>
     length regions = 32"
proof -
  from generate_regions_country_ids_and_count [of COUNTRIES] obtain regions where
    "generate_regions COUNTRIES = Inr regions"
    "\<forall>r \<in> set regions. r_country_id r \<in> c_id ` set COUNTRIES"
    "length regions = sum_list (map row_count COUNTRIES)"
    by blast
  moreover have "list_all (\<lambda>c. dict_contains REGIONS_DB (c_id c)) COUNTRIES"
    by code_simp
  ultimately show ?thesis by (auto simp: seeded_row_counts)
qed

text \<open>
  Claim C2 states 33 regions for the seeded tables. The rows of \<open>REGIONS_DB\<close> number
  5, 5, 4, 4, 4, 3, 3 and 4, which is 32, and so does the list \<^verbatim>\<open>generate_regions\<close>
  returns.
\<close>

theorem seeded_regions_count_not_33:
  "generate_regions COUNTRIES = Inr seeded_regions \<and> length seeded_regions \<noteq> 33 \<and>
   sum_list (map (length \<circ> snd) REGIONS_DB) \<noteq> 33"
  by (simp add: seeded_regions_run seeded_regions_length REGIONS_DB_row_counts)

text \<open>
  Claim C2, amended. With the seeded \<open>COUNTRIES\<close> and \<open>REGIONS_DB\<close>,
  \<^verbatim>\<open>generate_regions\<close> returns exactly 32 region records, the sum of the row counts of
  \<open>REGIONS_DB\<close>.
\<close>

theorem seeded_regions_count:
  "\<exists>regions. generate_regions COUNTRIES = Inr regions \<and> length regions = 32 \<and>
     sum_list (map (length \<circ> snd) REGIONS_DB) = 32"
  using seeded_regions_run seeded_regions_length by (simp add: REGIONS_DB_row_counts)

text \<open>A country absent from the table followed by Palestine: the three regions of Palestine.\<close>

theorem generate_regions_per_country_witness:
  "generate_regions [atlantis, COUNTRIES ! 5] =
     Inr [\<lparr>r_id = ''palestine-gaza'', r_country_id = ''palestine'', r_name = ''Gaza'',
            r_population = 2300000, r_need_level = ''high''\<rparr>,
          \<lparr>r_id = ''palestine-west-bank-north'', r_country_id = ''palestine'',
            r_name = ''West Bank North'', r_population = 1500000, r_need_level = ''medium''\<rparr>,
          \<lparr>r_id = ''palestine-west-bank-south'', r_country_id = ''palestine'',
            r_name = ''West Bank South'', r_population = 1200000, r_need_level = ''medium''\<rparr>] \<and>
   regions_for_spec atlantis = []"
proof -
  have "concat (map regions_for_spec [atlantis, COUNTRIES ! 5]) =
     [\<lparr>r_id = ''palestine-gaza'', r_country_id = ''palestine'', r_name = ''Gaza'',
            r_population = 2300000, r_need_level = ''high''\<rparr>,
          \<lparr>r_id = ''palestine-west-bank-north'', r_country_id = ''palestine'',
            r_name = ''West Bank North'', r_population = 1500000, r_need_level = ''medium''\<rparr>,
          \<lparr>r_id = ''palestine-west-bank-south'', r_country_id = ''palestine'',
            r_name = ''West Bank South'', r_population = 1200000, r_need_level = ''medium''\<rparr>]"
    by code_simp
  moreover have "regions_for_spec atlantis = []" by code_simp
  ultimately show ?thesis
    using generate_regions_per_country [of "[atlantis, COUNTRIES ! 5]"] by simp
qed

end
